theory Spec2Isabelle
  imports Complex_Main "HOL-Library.Multiset"
begin

section \<open>Data model\<close>

text \<open>
  The plugin keeps a pool of accounts (\<open>ManagedAccount\<close>), a usage map keyed by account
  id (\<open>UsageMetadata\<close>) and two persisted documents. JavaScript numbers that hold
  millisecond timestamps and request counters are modelled as \<open>int\<close>; an optional
  property (\<open>field?: T\<close>, possibly \<open>undefined\<close>) is an \<open>option\<close>. The field \<open>id\<close> is
  written \<open>id'\<close>, since \<open>id\<close> is the identity function of HOL.
\<close>

datatype AccountSelectionStrategy = Sticky | RoundRobin | LowestUsage

record UsageMetadata =
  usedCount :: int
  limitCount :: int
  realEmail :: "string option"
  lastSync :: int

text \<open>
  \<open>KiroAuthDetails\<close> and \<open>RefreshParts\<close> are what the OAuth collaborator hands to
  \<open>updateFromAuth\<close>; only the properties that function reads are kept. Several
  interfaces share property names; the account's selectors are the unqualified ones and
  the others are written qualified (\<open>UsageMetadata.usedCount\<close>, \<open>RefreshParts.clientId\<close>).
\<close>

record KiroAuthDetails =
  refresh :: string
  access :: string
  expires :: int
  email :: "string option"

record RefreshParts =
  refreshToken :: string
  profileArn :: "string option"
  clientId :: "string option"

record AccountMetadata =
  id' :: string
  email :: string
  authMethod :: string
  region :: "string option"
  profileArn :: "string option"
  clientId :: "string option"
  clientSecret :: "string option"
  refreshToken :: string
  accessToken :: string
  expiresAt :: int
  rateLimitResetTime :: "int option"
  isHealthy :: bool
  unhealthyReason :: "string option"
  recoveryTime :: "int option"

record ManagedAccount = AccountMetadata +
  lastUsed :: "int option"
  usedCount :: "int option"
  limitCount :: "int option"
  realEmail :: "string option"

text \<open>The two persisted documents and the live pool.\<close>

record AccountStorage =
  version :: int
  accounts :: "AccountMetadata list"
  activeIndex :: int

record UsageStorage =
  version :: int
  usage :: "string \<rightharpoonup> UsageMetadata"

record AccountManager =
  accounts :: "ManagedAccount list"
  usage :: "string \<rightharpoonup> UsageMetadata"
  cursor :: nat
  strategy :: AccountSelectionStrategy
  lastToastAccountIndex :: int
  lastToastTime :: int

section \<open>Availability (plugin/accounts.ts)\<close>

text \<open>
  \<open>isAccountAvailable\<close> reads the clock (\<open>Date.now()\<close>, the parameter \<open>now\<close>) and the
  account it is given by reference. It is modelled as returning its verdict together
  with the account as the call leaves it; the source function contains no assignment.
  A test \<open>x && now >= x\<close> on an optional number fails when \<open>x\<close> is \<open>undefined\<close> and also
  when \<open>x\<close> is \<open>0\<close>.
\<close>

definition isAccountAvailable :: "int \<Rightarrow> ManagedAccount \<Rightarrow> bool \<times> ManagedAccount" where
  "isAccountAvailable now account =
     (if \<not> isHealthy account then
        (case recoveryTime account of
           Some r \<Rightarrow> if r \<noteq> 0 \<and> now \<ge> r then (True, account) else (False, account)
         | None \<Rightarrow> (False, account))
      else
        (case rateLimitResetTime account of
           Some t \<Rightarrow> if t \<noteq> 0 \<and> now < t then (False, account) else (True, account)
         | None \<Rightarrow> (True, account)))"

text \<open>
  The callback of the \<open>filter\<close> call that opens \<open>getCurrentOrNext\<close>: the same test, but
  an unhealthy account whose recovery time has passed is set healthy and loses
  \<open>unhealthyReason\<close> and \<open>recoveryTime\<close> (\<open>delete\<close>) before the callback answers.
\<close>

definition availabilityFilter :: "int \<Rightarrow> ManagedAccount \<Rightarrow> bool \<times> ManagedAccount" where
  "availabilityFilter now account =
     (if \<not> isHealthy account then
        (case recoveryTime account of
           Some r \<Rightarrow>
             if r \<noteq> 0 \<and> now \<ge> r
             then (True, account\<lparr>isHealthy := True, unhealthyReason := None, recoveryTime := None\<rparr>)
             else (False, account)
         | None \<Rightarrow> (False, account))
      else
        (case rateLimitResetTime account of
           Some t \<Rightarrow> if t \<noteq> 0 \<and> now < t then (False, account) else (True, account)
         | None \<Rightarrow> (True, account)))"

section \<open>Quota evaluation (plugin/usage.ts, plugin/quota)\<close>




definition calculateUsagePercentage :: "int \<Rightarrow> int \<Rightarrow> int" where
  "calculateUsagePercentage used limit =
     (if limit = 0 \<or> limit \<le> 0 then 0
      else \<lfloor>(real_of_int used / real_of_int limit) * 100 + 1 / 2\<rfloor>)"

definition getRemainingCount :: "int \<Rightarrow> int \<Rightarrow> int" where
  "getRemainingCount used limit = max 0 (limit - used)"

text \<open>\<open>!x\<close> on an optional number: true for \<open>undefined\<close> and for \<open>0\<close>.\<close>

definition falsy :: "int option \<Rightarrow> bool" where
  "falsy v = (case v of None \<Rightarrow> True | Some n \<Rightarrow> n = 0)"


text \<open>
  Ranking. \<open>getRemainingQuota\<close> answers \<open>Infinity\<close> or a finite count, and the comparator
  of \<open>sortAccountsByQuota\<close> subtracts two such values, so the numbers met here are the
  integers, the two infinities and \<open>NaN\<close> (\<open>Infinity - Infinity\<close>).
\<close>

datatype Number = Fin int | PosInfinity | NegInfinity | NaN

fun minusNumber :: "Number \<Rightarrow> Number \<Rightarrow> Number" where
  "minusNumber NaN _ = NaN"
| "minusNumber _ NaN = NaN"
| "minusNumber (Fin a) (Fin b) = Fin (a - b)"
| "minusNumber (Fin a) PosInfinity = NegInfinity"
| "minusNumber (Fin a) NegInfinity = PosInfinity"
| "minusNumber PosInfinity PosInfinity = NaN"
| "minusNumber PosInfinity _ = PosInfinity"
| "minusNumber NegInfinity NegInfinity = NaN"
| "minusNumber NegInfinity _ = NegInfinity"

text \<open>
  \<open>Array.prototype.sort\<close> with a comparator: the result of the comparator is read by its
  sign, \<open>NaN\<close> counting as \<open>0\<close>, and the sort is stable. The model is the stable insertion
  sort; \<open>x\<close> is placed before the first later element it does not compare greater than.
\<close>

fun sortOrder :: "Number \<Rightarrow> int" where
  "sortOrder (Fin n) = n"
| "sortOrder PosInfinity = 1"
| "sortOrder NegInfinity = - 1"
| "sortOrder NaN = 0"

fun insertSorted :: "('a \<Rightarrow> 'a \<Rightarrow> Number) \<Rightarrow> 'a \<Rightarrow> 'a list \<Rightarrow> 'a list" where
  "insertSorted cmp x [] = [x]"
| "insertSorted cmp x (y # ys) =
     (if sortOrder (cmp x y) \<le> 0 then x # y # ys else y # insertSorted cmp x ys)"

definition arraySort :: "('a \<Rightarrow> 'a \<Rightarrow> Number) \<Rightarrow> 'a list \<Rightarrow> 'a list" where
  "arraySort cmp xs = foldr (insertSorted cmp) xs []"

definition getRemainingQuota :: "ManagedAccount \<Rightarrow> Number" where
  "getRemainingQuota account =
     (if falsy (usedCount account) \<or> falsy (limitCount account) then PosInfinity
      else
        (case (usedCount account, limitCount account) of
           (Some used, Some limit) \<Rightarrow> Fin (getRemainingCount used limit)
         | _ \<Rightarrow> PosInfinity))"

definition sortAccountsByQuota :: "ManagedAccount list \<Rightarrow> ManagedAccount list" where
  "sortAccountsByQuota accs =
     arraySort (\<lambda>a b. minusNumber (getRemainingQuota b) (getRemainingQuota a)) accs"

section \<open>Persistent store (plugin/storage.ts)\<close>

text \<open>
  \<open>getStoragePath()\<close> and \<open>getUsagePath()\<close> are two fixed, different paths; the model names
  a path by the kind of document kept there. A file is missing, holds text that
  \<open>JSON.parse\<close> rejects, or holds a document; \<open>JSON.stringify\<close> followed by \<open>JSON.parse\<close>
  gives back the document. The world also records which locks this process holds and
  the order of the steps taken (\<open>events\<close>). An operation of the file system or of the lock
  library fails when it is listed in the \<open>faults\<close> given to the call.
\<close>

datatype FileKind = AccountsFile | UsageFile

datatype 'a FileState = Missing | Unparsable | Doc 'a

datatype IoOp = Mkdir | WriteFile | Rename | ReadFile | Lock | Unlock

datatype Error = MkdirFailed | WriteFailed | RenameFailed | LockFailed | UnlockFailed | Thrown string

datatype Event =
    EnsureFileExists FileKind
  | LockAcquired FileKind
  | CallbackRun FileKind
  | LockReleased FileKind
  | LogError Error
  | LogWarn Error

record World =
  accountsFile :: "AccountStorage FileState"
  usageFile :: "UsageStorage FileState"
  held :: "FileKind set"
  events :: "Event list"

definition record_event :: "Event \<Rightarrow> World \<Rightarrow> World" where
  "record_event e w = w\<lparr>events := events w @ [e]\<rparr>"

definition fileExists :: "FileKind \<Rightarrow> World \<Rightarrow> bool" where
  "fileExists kind w =
     (case kind of AccountsFile \<Rightarrow> accountsFile w \<noteq> Missing | UsageFile \<Rightarrow> usageFile w \<noteq> Missing)"

definition defaultStorage :: AccountStorage where
  "defaultStorage = \<lparr>AccountStorage.version = 1, AccountStorage.accounts = [], activeIndex = - 1\<rparr>"

definition defaultUsage :: UsageStorage where
  "defaultUsage = \<lparr>UsageStorage.version = 1, UsageStorage.usage = Map.empty\<rparr>"

definition ensureFileExists :: "IoOp set \<Rightarrow> FileKind \<Rightarrow> World \<Rightarrow> (Error + unit) \<times> World" where
  "ensureFileExists faults kind w0 =
     (let w = record_event (EnsureFileExists kind) w0 in
      if fileExists kind w then (Inr (), w)
      else if Mkdir \<in> faults then (Inl MkdirFailed, w)
      else if WriteFile \<in> faults then (Inl WriteFailed, w)
      else
        (case kind of
           AccountsFile \<Rightarrow> (Inr (), w\<lparr>accountsFile := Doc defaultStorage\<rparr>)
         | UsageFile \<Rightarrow> (Inr (), w\<lparr>usageFile := Doc defaultUsage\<rparr>)))"

text \<open>
  \<open>withFileLock\<close>: \<open>ensureFileExists\<close> runs before the \<open>try\<close> block, so its failure leaves
  at once. Inside, a failed \<open>lockfile.lock\<close> (the lock is held, or the retries are used
  up) and a failed callback are both logged by the \<open>catch\<close> block and thrown again; the
  \<open>finally\<close> block calls \<open>release\<close> only when the lock was taken, and a failure of
  \<open>release\<close> is logged as a warning and swallowed.
\<close>

definition withFileLock ::
  "IoOp set \<Rightarrow> FileKind \<Rightarrow> (World \<Rightarrow> (Error + 'a) \<times> World) \<Rightarrow> World \<Rightarrow> (Error + 'a) \<times> World" where
  "withFileLock faults kind fn w0 =
     (case ensureFileExists faults kind w0 of
        (Inl e, w1) \<Rightarrow> (Inl e, w1)
      | (Inr _, w1) \<Rightarrow>
          if Lock \<in> faults \<or> kind \<in> held w1
          then (Inl LockFailed, record_event (LogError LockFailed) w1)
          else
            (let w2 = record_event (LockAcquired kind) (w1\<lparr>held := insert kind (held w1)\<rparr>) in
             case fn (record_event (CallbackRun kind) w2) of
               (r, w3) \<Rightarrow>
                 (let w4 = (case r of Inl e \<Rightarrow> record_event (LogError e) w3 | Inr _ \<Rightarrow> w3) in
                  if Unlock \<in> faults
                  then (r, record_event (LogWarn UnlockFailed) w4)
                  else (r, record_event (LockReleased kind) (w4\<lparr>held := held w4 - {kind}\<rparr>)))))"

text \<open>
  The save callbacks write the document to a temporary file and rename it over the
  target; the temporary file itself is not kept in the model.
\<close>

definition saveAccounts :: "IoOp set \<Rightarrow> AccountStorage \<Rightarrow> World \<Rightarrow> (Error + unit) \<times> World" where
  "saveAccounts faults storage w =
     withFileLock faults AccountsFile
       (\<lambda>w'. if WriteFile \<in> faults then (Inl WriteFailed, w')
             else if Rename \<in> faults then (Inl RenameFailed, w')
             else (Inr (), w'\<lparr>accountsFile := Doc storage\<rparr>)) w"

definition saveUsage :: "IoOp set \<Rightarrow> UsageStorage \<Rightarrow> World \<Rightarrow> (Error + unit) \<times> World" where
  "saveUsage faults storage w =
     withFileLock faults UsageFile
       (\<lambda>w'. if WriteFile \<in> faults then (Inl WriteFailed, w')
             else if Rename \<in> faults then (Inl RenameFailed, w')
             else (Inr (), w'\<lparr>usageFile := Doc storage\<rparr>)) w"

text \<open>Reads take no lock; every failure is answered with the default document.\<close>

definition loadAccounts :: "IoOp set \<Rightarrow> World \<Rightarrow> AccountStorage \<times> World" where
  "loadAccounts faults w =
     (case ensureFileExists faults AccountsFile w of
        (Inl e, w1) \<Rightarrow> (defaultStorage, record_event (LogError e) w1)
      | (Inr _, w1) \<Rightarrow>
          if ReadFile \<in> faults
          then (defaultStorage, record_event (LogError (Thrown ''readFile'')) w1)
          else
            (case accountsFile w1 of
               Doc d \<Rightarrow> (d, w1)
             | _ \<Rightarrow> (defaultStorage, record_event (LogError (Thrown ''JSON.parse'')) w1)))"

definition loadUsage :: "IoOp set \<Rightarrow> World \<Rightarrow> UsageStorage \<times> World" where
  "loadUsage faults w =
     (case ensureFileExists faults UsageFile w of
        (Inl e, w1) \<Rightarrow> (defaultUsage, w1)
      | (Inr _, w1) \<Rightarrow>
          if ReadFile \<in> faults then (defaultUsage, w1)
          else (case usageFile w1 of Doc d \<Rightarrow> (d, w1) | _ \<Rightarrow> (defaultUsage, w1)))"

section \<open>The account pool (plugin/accounts.ts)\<close>

text \<open>
  The pool holds its accounts by reference. In the model an account is named by its
  position in \<open>accounts\<close> (every position holds an object of its own), and a function that
  mutates the pool returns the pool as it leaves it.
\<close>

text \<open>The constructor copies the usage record of an account, when there is one, into it.\<close>

definition syncUsage :: "(string \<rightharpoonup> UsageMetadata) \<Rightarrow> ManagedAccount \<Rightarrow> ManagedAccount" where
  "syncUsage usg account =
     (case usg (id' account) of
        Some meta \<Rightarrow>
          account\<lparr>usedCount := Some (UsageMetadata.usedCount meta),
                  limitCount := Some (UsageMetadata.limitCount meta),
                  realEmail := UsageMetadata.realEmail meta\<rparr>
      | None \<Rightarrow> account)"

definition newAccountManager ::
  "ManagedAccount list \<Rightarrow> (string \<rightharpoonup> UsageMetadata) \<Rightarrow> AccountSelectionStrategy \<Rightarrow> AccountManager" where
  "newAccountManager accs usg strat =
     \<lparr>accounts = map (syncUsage usg) accs, usage = usg, cursor = 0, strategy = strat,
      lastToastAccountIndex = - 1, lastToastTime = 0\<rparr>"

text \<open>
  \<open>loadFromDisk\<close>. \<open>KIRO_CONSTANTS.DEFAULT_REGION\<close> is the parameter \<open>defaultRegion\<close>;
  \<open>meta.region || DEFAULT_REGION\<close> takes the default for a missing and for an empty region.
\<close>

definition fromMetadata :: "string \<Rightarrow> AccountMetadata \<Rightarrow> ManagedAccount" where
  "fromMetadata defaultRegion meta =
     \<lparr>id' = id' meta, email = email meta, authMethod = authMethod meta,
      region = (case region meta of
                  Some r \<Rightarrow> if r = [] then Some defaultRegion else Some r
                | None \<Rightarrow> Some defaultRegion),
      profileArn = profileArn meta, clientId = clientId meta, clientSecret = clientSecret meta,
      refreshToken = refreshToken meta, accessToken = accessToken meta, expiresAt = expiresAt meta,
      rateLimitResetTime = rateLimitResetTime meta, isHealthy = isHealthy meta,
      unhealthyReason = unhealthyReason meta, recoveryTime = recoveryTime meta,
      lastUsed = None, usedCount = None, limitCount = None, realEmail = None\<rparr>"

definition loadFromDisk ::
  "string \<Rightarrow> IoOp set \<Rightarrow> IoOp set \<Rightarrow> AccountSelectionStrategy option \<Rightarrow> World \<Rightarrow> AccountManager \<times> World" where
  "loadFromDisk defaultRegion faultsA faultsU strat w =
     (case loadAccounts faultsA w of
        (storage, w1) \<Rightarrow>
          (case loadUsage faultsU w1 of
             (usageStorage, w2) \<Rightarrow>
               (newAccountManager
                  (map (fromMetadata defaultRegion) (AccountStorage.accounts storage))
                  (UsageStorage.usage usageStorage)
                  (case strat of Some s \<Rightarrow> s | None \<Rightarrow> Sticky),
                w2)))"

text \<open>\<open>saveToDisk\<close>: the account document first; when that throws, the usage document is not written.\<close>

definition toMetadata :: "ManagedAccount \<Rightarrow> AccountMetadata" where
  "toMetadata account =
     \<lparr>id' = id' account, email = email account, authMethod = authMethod account,
      region = region account, profileArn = profileArn account, clientId = clientId account,
      clientSecret = clientSecret account, refreshToken = refreshToken account,
      accessToken = accessToken account, expiresAt = expiresAt account,
      rateLimitResetTime = rateLimitResetTime account, isHealthy = isHealthy account,
      unhealthyReason = unhealthyReason account, recoveryTime = recoveryTime account\<rparr>"

definition saveToDisk :: "IoOp set \<Rightarrow> IoOp set \<Rightarrow> AccountManager \<Rightarrow> World \<Rightarrow> (Error + unit) \<times> World" where
  "saveToDisk faultsA faultsU m w =
     (case saveAccounts faultsA
             \<lparr>AccountStorage.version = 1,
              AccountStorage.accounts = map toMetadata (accounts m),
              activeIndex = int (cursor m)\<rparr> w of
        (Inl e, w1) \<Rightarrow> (Inl e, w1)
      | (Inr _, w1) \<Rightarrow>
          saveUsage faultsU \<lparr>UsageStorage.version = 1, UsageStorage.usage = usage m\<rparr> w1)"

subsection \<open>Selection\<close>

text \<open>\<open>x || 0\<close> on an optional number.\<close>

definition orZero :: "int option \<Rightarrow> int" where
  "orZero v = (case v of None \<Rightarrow> 0 | Some n \<Rightarrow> n)"

text \<open>What every branch does to the account it selects.\<close>

definition stampSelected :: "int \<Rightarrow> ManagedAccount \<Rightarrow> ManagedAccount" where
  "stampSelected now account =
     account\<lparr>lastUsed := Some now, usedCount := Some (orZero (usedCount account) + 1)\<rparr>"

text \<open>
  The opening \<open>filter\<close>: the accounts as the callback leaves them, and the positions of
  those it keeps, in list order.
\<close>

definition availableAccounts :: "int \<Rightarrow> ManagedAccount list \<Rightarrow> ManagedAccount list \<times> nat list" where
  "availableAccounts now accs =
     (map (\<lambda>a. snd (availabilityFilter now a)) accs,
      filter (\<lambda>i. fst (availabilityFilter now (accs ! i))) [0..<length accs])"

text \<open>The comparator of the lowest-usage branch.\<close>

definition compareUsage :: "ManagedAccount \<Rightarrow> ManagedAccount \<Rightarrow> Number" where
  "compareUsage a b =
     (let usageA = orZero (usedCount a); usageB = orZero (usedCount b) in
      if usageA \<noteq> usageB then Fin (usageA - usageB)
      else Fin (orZero (lastUsed a) - orZero (lastUsed b)))"

text \<open>
  \<open>getCurrentOrNext\<close> answers the position of the account it returns (\<open>None\<close> for \<open>null\<close>).
  \<open>now\<close> is the reading of the clock at its start, \<open>now2\<close> the later reading made by
  \<open>isAccountAvailable\<close> in the sticky branch.
\<close>

definition getCurrentOrNext :: "int \<Rightarrow> int \<Rightarrow> AccountManager \<Rightarrow> nat option \<times> AccountManager" where
  "getCurrentOrNext now now2 m =
     (case availableAccounts now (accounts m) of
        (accs, avail) \<Rightarrow>
          if avail = [] then (None, m\<lparr>accounts := accs\<rparr>)
          else
            (case strategy m of
               Sticky \<Rightarrow>
                 if cursor m < length accs \<and> fst (isAccountAvailable now2 (accs ! cursor m))
                 then (Some (cursor m),
                       m\<lparr>accounts := accs[cursor m := stampSelected now (accs ! cursor m)]\<rparr>)
                 else
                   (case avail of
                      i # _ \<Rightarrow>
                        (Some i, m\<lparr>accounts := accs[i := stampSelected now (accs ! i)], cursor := i\<rparr>)
                    | [] \<Rightarrow> (None, m\<lparr>accounts := accs\<rparr>))
             | RoundRobin \<Rightarrow>
                 (let i = avail ! (cursor m mod length avail) in
                  (Some i,
                   m\<lparr>accounts := accs[i := stampSelected now (accs ! i)],
                     cursor := (cursor m + 1) mod length avail\<rparr>))
             | LowestUsage \<Rightarrow>
                 (case arraySort (\<lambda>i j. compareUsage (accs ! i) (accs ! j)) avail of
                    i # _ \<Rightarrow>
                      (Some i, m\<lparr>accounts := accs[i := stampSelected now (accs ! i)], cursor := i\<rparr>)
                  | [] \<Rightarrow> (None, m\<lparr>accounts := accs\<rparr>))))"

subsection \<open>Mutation\<close>

fun findIndex :: "('a \<Rightarrow> bool) \<Rightarrow> 'a list \<Rightarrow> nat option" where
  "findIndex P [] = None"
| "findIndex P (x # xs) = (if P x then Some 0 else map_option Suc (findIndex P xs))"

text \<open>
  \<open>updateUsage\<close>: \<open>now\<close> is the clock reading stored as \<open>lastSync\<close>; the three further
  arguments are the properties of \<open>metadata\<close>.
\<close>

definition updateUsage ::
  "int \<Rightarrow> string \<Rightarrow> int \<Rightarrow> int \<Rightarrow> string option \<Rightarrow> AccountManager \<Rightarrow> AccountManager" where
  "updateUsage now accountId used limit mail m =
     m\<lparr>accounts :=
         (case findIndex (\<lambda>a. id' a = accountId) (accounts m) of
            Some i \<Rightarrow>
              (accounts m)[i :=
                 (let account = (accounts m ! i)\<lparr>usedCount := Some used, limitCount := Some limit\<rparr> in
                  case mail of
                    Some e \<Rightarrow> if e \<noteq> [] then account\<lparr>realEmail := Some e\<rparr> else account
                  | None \<Rightarrow> account)]
          | None \<Rightarrow> accounts m),
       usage := (usage m)(accountId \<mapsto>
         \<lparr>UsageMetadata.usedCount = used, UsageMetadata.limitCount = limit,
          UsageMetadata.realEmail = mail, lastSync = now\<rparr>)\<rparr>"

definition addAccount :: "ManagedAccount \<Rightarrow> AccountManager \<Rightarrow> AccountManager" where
  "addAccount account m =
     (case findIndex (\<lambda>a. id' a = id' account) (accounts m) of
        None \<Rightarrow> m\<lparr>accounts := accounts m @ [account]\<rparr>
      | Some index \<Rightarrow> m\<lparr>accounts := (accounts m)[index := account]\<rparr>)"

definition removeAccount :: "ManagedAccount \<Rightarrow> AccountManager \<Rightarrow> AccountManager" where
  "removeAccount account m =
     (let accs = filter (\<lambda>a. id' a \<noteq> id' account) (accounts m) in
      m\<lparr>accounts := accs,
        usage := (usage m)(id' account := None),
        cursor :=
          (if cursor m \<ge> length accs \<and> length accs > 0 then length accs - 1
           else if length accs = 0 then 0
           else cursor m)\<rparr>)"

text \<open>
  \<open>updateFromAuth\<close>: \<open>decodeRefreshToken\<close> belongs to the OAuth collaborator and is a
  parameter; \<open>now\<close> is the clock reading stored as \<open>lastUsed\<close>.
\<close>

definition updateFromAuth ::
  "(string \<Rightarrow> RefreshParts) \<Rightarrow> int \<Rightarrow> ManagedAccount \<Rightarrow> KiroAuthDetails \<Rightarrow> AccountManager \<Rightarrow> AccountManager" where
  "updateFromAuth decodeRefreshToken now account auth m =
     (case findIndex (\<lambda>a. id' a = id' account) (accounts m) of
        None \<Rightarrow> m
      | Some accountIndex \<Rightarrow>
          (let acc0 = accounts m ! accountIndex;
               acc1 = acc0\<lparr>accessToken := access auth, expiresAt := expires auth, lastUsed := Some now\<rparr>;
               acc2 = (case KiroAuthDetails.email auth of
                         Some e \<Rightarrow>
                           if e \<noteq> [] \<and> e \<noteq> ''builder-id@aws.amazon.com''
                           then acc1\<lparr>realEmail := Some e\<rparr> else acc1
                       | None \<Rightarrow> acc1);
               parts = decodeRefreshToken (refresh auth);
               acc3 = acc2\<lparr>refreshToken := RefreshParts.refreshToken parts\<rparr>;
               acc4 = (case RefreshParts.profileArn parts of
                         Some p \<Rightarrow> if p \<noteq> [] then acc3\<lparr>profileArn := Some p\<rparr> else acc3
                       | None \<Rightarrow> acc3);
               acc5 = (case RefreshParts.clientId parts of
                         Some c \<Rightarrow> if c \<noteq> [] then acc4\<lparr>clientId := Some c\<rparr> else acc4
                       | None \<Rightarrow> acc4)
           in m\<lparr>accounts := (accounts m)[accountIndex := acc5]\<rparr>))"

definition markRateLimited :: "int \<Rightarrow> ManagedAccount \<Rightarrow> int \<Rightarrow> AccountManager \<Rightarrow> AccountManager" where
  "markRateLimited now account retryAfterMs m =
     (case findIndex (\<lambda>a. id' a = id' account) (accounts m) of
        None \<Rightarrow> m
      | Some accountIndex \<Rightarrow>
          m\<lparr>accounts := (accounts m)[accountIndex :=
              (accounts m ! accountIndex)\<lparr>rateLimitResetTime := Some (now + retryAfterMs)\<rparr>]\<rparr>)"

definition markUnhealthy :: "ManagedAccount \<Rightarrow> string \<Rightarrow> int option \<Rightarrow> AccountManager \<Rightarrow> AccountManager" where
  "markUnhealthy account reason recovery m =
     (case findIndex (\<lambda>a. id' a = id' account) (accounts m) of
        None \<Rightarrow> m
      | Some accountIndex \<Rightarrow>
          m\<lparr>accounts := (accounts m)[accountIndex :=
              (accounts m ! accountIndex)\<lparr>isHealthy := False, unhealthyReason := Some reason,
                                          recoveryTime := recovery\<rparr>]\<rparr>)"

section \<open>Sequences of calls\<close>

text \<open>
  Consecutive calls of \<open>getCurrentOrNext\<close>, one pair of clock readings for each call: the
  answers in order, and the pool after the last call.
\<close>

fun consecutiveCalls :: "(int \<times> int) list \<Rightarrow> AccountManager \<Rightarrow> nat option list \<times> AccountManager" where
  "consecutiveCalls [] m = ([], m)"
| "consecutiveCalls ((now, now2) # ts) m =
     (case getCurrentOrNext now now2 m of
        (res, m') \<Rightarrow> (case consecutiveCalls ts m' of (rs, m'') \<Rightarrow> (res # rs, m'')))"

text \<open>The filter of every one of these calls keeps exactly the positions \<open>A\<close>.\<close>

fun availableThroughout :: "nat list \<Rightarrow> (int \<times> int) list \<Rightarrow> AccountManager \<Rightarrow> bool" where
  "availableThroughout A [] m = True"
| "availableThroughout A ((now, now2) # ts) m =
     (snd (availableAccounts now (accounts m)) = A \<and>
      availableThroughout A ts (snd (getCurrentOrNext now now2 m)))"

text \<open>
  The public operations that change the pool or the disk, and a run of them. The
  collaborator's \<open>decodeRefreshToken\<close> is the parameter \<open>dec\<close>.
\<close>

datatype Operation =
    GetCurrentOrNext int int
  | UpdateUsage int string int int "string option"
  | AddAccount ManagedAccount
  | RemoveAccount ManagedAccount
  | UpdateFromAuth int ManagedAccount KiroAuthDetails
  | MarkRateLimited int ManagedAccount int
  | MarkUnhealthy ManagedAccount string "int option"
  | SaveToDisk "IoOp set" "IoOp set"

fun perform ::
  "(string \<Rightarrow> RefreshParts) \<Rightarrow> Operation \<Rightarrow> AccountManager \<times> World \<Rightarrow> AccountManager \<times> World" where
  "perform dec (GetCurrentOrNext now now2) (m, w) = (snd (getCurrentOrNext now now2 m), w)"
| "perform dec (UpdateUsage now accountId used limit mail) (m, w) =
     (updateUsage now accountId used limit mail m, w)"
| "perform dec (AddAccount account) (m, w) = (addAccount account m, w)"
| "perform dec (RemoveAccount account) (m, w) = (removeAccount account m, w)"
| "perform dec (UpdateFromAuth now account auth) (m, w) = (updateFromAuth dec now account auth m, w)"
| "perform dec (MarkRateLimited now account retryAfterMs) (m, w) =
     (markRateLimited now account retryAfterMs m, w)"
| "perform dec (MarkUnhealthy account reason recovery) (m, w) =
     (markUnhealthy account reason recovery m, w)"
| "perform dec (SaveToDisk fa fu) (m, w) = (m, snd (saveToDisk fa fu m w))"

fun performAll ::
  "(string \<Rightarrow> RefreshParts) \<Rightarrow> Operation list \<Rightarrow> AccountManager \<times> World \<Rightarrow> AccountManager \<times> World" where
  "performAll dec [] s = s"
| "performAll dec (op # ops) s = performAll dec ops (perform dec op s)"

text \<open>Every key of the usage map is the id of an account of the pool.\<close>

definition accountIds :: "AccountManager \<Rightarrow> string set" where
  "accountIds m = id' ` set (accounts m)"

definition usageOwned :: "AccountManager \<Rightarrow> bool" where
  "usageOwned m = (dom (usage m) \<subseteq> accountIds m)"

text \<open>The same for the two documents on disk, when both are there.\<close>

definition noOrphanOnDisk :: "World \<Rightarrow> bool" where
  "noOrphanOnDisk w =
     (case (accountsFile w, usageFile w) of
        (Doc d, Doc u) \<Rightarrow> dom (UsageStorage.usage u) \<subseteq> id' ` set (AccountStorage.accounts d)
      | _ \<Rightarrow> True)"

text \<open>Every \<open>updateUsage\<close> of a run names an account that is in the pool at that moment.\<close>

fun syncsKnownAccount :: "Operation \<Rightarrow> AccountManager \<Rightarrow> bool" where
  "syncsKnownAccount (UpdateUsage now accountId used limit mail) m = (accountId \<in> accountIds m)"
| "syncsKnownAccount _ m = True"

fun syncKnownAccounts ::
  "(string \<Rightarrow> RefreshParts) \<Rightarrow> Operation list \<Rightarrow> AccountManager \<times> World \<Rightarrow> bool" where
  "syncKnownAccounts dec [] s = True"
| "syncKnownAccounts dec (op # ops) s =
     (syncsKnownAccount op (fst s) \<and> syncKnownAccounts dec ops (perform dec op s))"

text \<open>
  The order \<open>\<le>\<close> of JavaScript on the numbers above (every comparison with \<open>NaN\<close> is
  false), and the order in which \<open>sortAccountsByQuota\<close> ranks two accounts.
\<close>

fun numberLe :: "Number \<Rightarrow> Number \<Rightarrow> bool" where
  "numberLe NaN _ = False"
| "numberLe _ NaN = False"
| "numberLe NegInfinity _ = True"
| "numberLe _ PosInfinity = True"
| "numberLe (Fin a) (Fin b) = (a \<le> b)"
| "numberLe _ _ = False"

definition ranksNoLater :: "ManagedAccount \<Rightarrow> ManagedAccount \<Rightarrow> bool" where
  "ranksNoLater a b = numberLe (getRemainingQuota b) (getRemainingQuota a)"

section \<open>Concrete accounts and pools\<close>

text \<open>The inputs at which the theorems below are instantiated.\<close>

definition sampleAccount :: "string \<Rightarrow> int option \<Rightarrow> int option \<Rightarrow> ManagedAccount" where
  "sampleAccount ident used limit =
     \<lparr>id' = ident, email = ''user@example.com'', authMethod = ''social'',
      region = Some ''us-east-1'', profileArn = None, clientId = None, clientSecret = None,
      refreshToken = ''refresh'', accessToken = ''access'', expiresAt = 1000,
      rateLimitResetTime = None, isHealthy = True, unhealthyReason = None, recoveryTime = None,
      lastUsed = None, usedCount = used, limitCount = limit, realEmail = None\<rparr>"


text \<open>An available account with the given local request count, never used so far.\<close>

definition availableWithUsage :: "ManagedAccount \<Rightarrow> int \<Rightarrow> ManagedAccount" where
  "availableWithUsage a n =
     a\<lparr>isHealthy := True, rateLimitResetTime := None, lastUsed := None, usedCount := Some n\<rparr>"

definition emptyWorld :: World where
  "emptyWorld = \<lparr>accountsFile = Missing, usageFile = Missing, held = {}, events = []\<rparr>"

text \<open>One healthy account whose usage record says 100 of 100.\<close>

definition exhaustedWorld :: World where
  "exhaustedWorld =
     \<lparr>accountsFile = Doc \<lparr>AccountStorage.version = 1,
                           AccountStorage.accounts = [toMetadata (sampleAccount ''a1'' None None)],
                           activeIndex = 0\<rparr>,
      usageFile = Doc \<lparr>UsageStorage.version = 1,
                        UsageStorage.usage =
                          [''a1'' \<mapsto> \<lparr>UsageMetadata.usedCount = 100, UsageMetadata.limitCount = 100,
                                      UsageMetadata.realEmail = None, lastSync = 5\<rparr>]\<rparr>,
      held = {}, events = []\<rparr>"

text \<open>A usage record on disk whose account is not in the account document.\<close>

definition orphanWorld :: World where
  "orphanWorld =
     \<lparr>accountsFile = Doc defaultStorage,
      usageFile = Doc \<lparr>UsageStorage.version = 1,
                        UsageStorage.usage =
                          [''gone'' \<mapsto> \<lparr>UsageMetadata.usedCount = 1, UsageMetadata.limitCount = 10,
                                        UsageMetadata.realEmail = None, lastSync = 5\<rparr>]\<rparr>,
      held = {}, events = []\<rparr>"


text \<open>Three accounts, the second rate limited until 1000; round-robin, cursor at 1.\<close>

definition roundRobinPool :: AccountManager where
  "roundRobinPool =
     \<lparr>accounts = [sampleAccount ''a'' None None,
                  (sampleAccount ''b'' None None)\<lparr>rateLimitResetTime := Some 1000\<rparr>,
                  sampleAccount ''c'' None None],
      usage = Map.empty, cursor = 1, strategy = RoundRobin,
      lastToastAccountIndex = - 1, lastToastTime = 0\<rparr>"

definition plainDecode :: "string \<Rightarrow> RefreshParts" where
  "plainDecode s = \<lparr>RefreshParts.refreshToken = s, RefreshParts.profileArn = None,
                    RefreshParts.clientId = None\<rparr>"

section \<open>Availability\<close>



section \<open>Quota classification\<close>

text \<open>
  For a positive limit the percentage is an integer quotient, and the warning threshold
  is reached exactly from 79.5 percent on.
\<close>

lemma calculateUsagePercentage_div:
  assumes "limit > 0"
  shows "calculateUsagePercentage used limit = (200 * used + limit) div (2 * limit)"
proof -
  have "(real_of_int used / real_of_int limit) * 100 + 1 / 2
          = real_of_int (200 * used + limit) / real_of_int (2 * limit)"
    using assms by (simp add: field_simps)
  then have "\<lfloor>(real_of_int used / real_of_int limit) * 100 + 1 / 2\<rfloor>
          = (200 * used + limit) div (2 * limit)"
    by (simp only: floor_divide_of_int_eq)
  with assms show ?thesis by (simp add: calculateUsagePercentage_def)
qed

lemma calculateUsagePercentage_threshold:
  assumes "limit > 0"
  shows "calculateUsagePercentage used limit \<ge> 80 \<longleftrightarrow> 159 * limit \<le> 200 * used"
proof -
  have "80 \<le> \<lfloor>(real_of_int used / real_of_int limit) * 100 + 1 / 2\<rfloor>
          \<longleftrightarrow> real_of_int (159 * limit) \<le> real_of_int (200 * used)"
    using assms by (simp add: le_floor_iff field_simps)
  also have "\<dots> \<longleftrightarrow> 159 * limit \<le> 200 * used"
    by (simp only: of_int_le_iff)
  finally show ?thesis using assms unfolding calculateUsagePercentage_def by simp
qed




section \<open>Lazy recovery\<close>


lemma availableAccounts_fst_length [simp]:
  "length (fst (availableAccounts now accs)) = length accs"
  by (simp add: availableAccounts_def)

text \<open>What a call of \<open>getCurrentOrNext\<close> does to the list of accounts, whatever the strategy.\<close>

lemma getCurrentOrNext_accounts:
  assumes "getCurrentOrNext now now2 m = (r, m')"
  shows "(r = None \<and> accounts m' = fst (availableAccounts now (accounts m))) \<or>
         (\<exists>j. r = Some j \<and>
            accounts m' = (fst (availableAccounts now (accounts m)))
               [j := stampSelected now (fst (availableAccounts now (accounts m)) ! j)])"
  using assms
  by (cases "availableAccounts now (accounts m)")
     (auto simp: getCurrentOrNext_def Let_def
           split: if_splits AccountSelectionStrategy.splits list.splits)




section \<open>Quota ranking\<close>

text \<open>The insertion sort permutes its input, sorts it and keeps equal elements in order.\<close>

lemma mset_insertSorted: "mset (insertSorted cmp x ys) = add_mset x (mset ys)"
  by (induction ys) simp_all

lemma mset_arraySort: "mset (arraySort cmp xs) = mset xs"
  unfolding arraySort_def by (induction xs) (simp_all add: mset_insertSorted)

lemma set_insertSorted: "set (insertSorted cmp x ys) = insert x (set ys)"
  by (induction ys) auto

lemma sorted_insertSorted:
  assumes le: "\<And>x y. (sortOrder (cmp x y) \<le> 0) = R x y"
    and trans: "\<And>x y z. R x y \<Longrightarrow> R y z \<Longrightarrow> R x z"
    and total: "\<And>x y. R x y \<or> R y x"
    and "sorted_wrt R ys"
  shows "sorted_wrt R (insertSorted cmp x ys)"
  using assms(4)
proof (induction ys)
  case Nil
  then show ?case by simp
next
  case (Cons y ys)
  show ?case
  proof (cases "R x y")
    case True
    with Cons.prems trans have "\<forall>z \<in> set (y # ys). R x z" by auto
    with True Cons.prems show ?thesis by (simp add: le)
  next
    case False
    with total have "R y x" by blast
    with False Cons show ?thesis by (auto simp: le set_insertSorted)
  qed
qed

lemma sorted_arraySort:
  assumes "\<And>x y. (sortOrder (cmp x y) \<le> 0) = R x y"
    and "\<And>x y z. R x y \<Longrightarrow> R y z \<Longrightarrow> R x z"
    and "\<And>x y. R x y \<or> R y x"
  shows "sorted_wrt R (arraySort cmp xs)"
  unfolding arraySort_def
  by (induction xs) (simp_all add: sorted_insertSorted [where R = R, OF assms])

lemma filter_insertSorted:
  assumes le: "\<And>x y. (sortOrder (cmp x y) \<le> 0) = R x y"
    and trans: "\<And>x y z. R x y \<Longrightarrow> R y z \<Longrightarrow> R x z"
    and "sorted_wrt R ys" and "R x z" and "R z x"
  shows "filter (\<lambda>y. R y z \<and> R z y) (insertSorted cmp x ys) = x # filter (\<lambda>y. R y z \<and> R z y) ys"
  using assms(3)
proof (induction ys)
  case Nil
  with assms(4,5) show ?case by simp
next
  case (Cons y ys)
  show ?case
  proof (cases "R x y")
    case True
    with assms(4,5) show ?thesis by (simp add: le)
  next
    case False
    have "\<not> R z y" using False assms(4) trans by blast
    with False Cons show ?thesis by (simp add: le)
  qed
qed

lemma filter_insertSorted_other:
  assumes "\<not> (R x z \<and> R z x)"
  shows "filter (\<lambda>y. R y z \<and> R z y) (insertSorted cmp x ys) = filter (\<lambda>y. R y z \<and> R z y) ys"
  using assms by (induction ys) auto

lemma stable_arraySort:
  assumes "\<And>x y. (sortOrder (cmp x y) \<le> 0) = R x y"
    and "\<And>x y z. R x y \<Longrightarrow> R y z \<Longrightarrow> R x z"
    and "\<And>x y. R x y \<or> R y x"
  shows "filter (\<lambda>y. R y z \<and> R z y) (arraySort cmp xs) = filter (\<lambda>y. R y z \<and> R z y) xs"
proof (induction xs)
  case Nil
  then show ?case by (simp add: arraySort_def)
next
  case (Cons x xs)
  have s: "sorted_wrt R (arraySort cmp xs)"
    by (rule sorted_arraySort [where R = R, OF assms])
  have u: "arraySort cmp (x # xs) = insertSorted cmp x (arraySort cmp xs)"
    by (simp add: arraySort_def)
  show ?case
  proof (cases "R x z \<and> R z x")
    case True
    then show ?thesis
      using filter_insertSorted [where R = R and cmp = cmp and x = x and z = z, OF assms(1,2) s]
        Cons.IH
      by (simp add: u)
  next
    case False
    then show ?thesis
      using filter_insertSorted_other
              [where R = R and cmp = cmp and x = x and z = z and ys = "arraySort cmp xs"]
        Cons.IH
      by (simp add: u)
  qed
qed

text \<open>The remaining quota, and the comparator of \<open>sortAccountsByQuota\<close> as an order.\<close>

lemma getRemainingQuota_cases:
  "getRemainingQuota a =
     (if falsy (usedCount a) \<or> falsy (limitCount a) then PosInfinity
      else Fin (max 0 (orZero (limitCount a) - orZero (usedCount a))))"
  by (auto simp: getRemainingQuota_def falsy_def orZero_def getRemainingCount_def
           split: option.splits)

lemma getRemainingQuota_range:
  "getRemainingQuota a = PosInfinity \<or> (\<exists>n. getRemainingQuota a = Fin n)"
  by (simp add: getRemainingQuota_cases)

lemma quota_comparator:
  "(sortOrder (minusNumber (getRemainingQuota y) (getRemainingQuota x)) \<le> 0) = ranksNoLater x y"
  using getRemainingQuota_range [of x] getRemainingQuota_range [of y]
  by (auto simp: ranksNoLater_def)

lemma ranksNoLater_trans: "ranksNoLater x y \<Longrightarrow> ranksNoLater y z \<Longrightarrow> ranksNoLater x z"
  using getRemainingQuota_range [of x] getRemainingQuota_range [of y] getRemainingQuota_range [of z]
  by (auto simp: ranksNoLater_def)

lemma ranksNoLater_total: "ranksNoLater x y \<or> ranksNoLater y x"
  using getRemainingQuota_range [of x] getRemainingQuota_range [of y]
  by (auto simp: ranksNoLater_def)

lemma ranksNoLater_both:
  "(ranksNoLater x y \<and> ranksNoLater y x) = (getRemainingQuota x = getRemainingQuota y)"
  using getRemainingQuota_range [of x] getRemainingQuota_range [of y]
  by (auto simp: ranksNoLater_def)

text \<open>
  C8 (as amended). \<open>sortAccountsByQuota\<close> rearranges the accounts into descending order of
  their remaining quota and keeps accounts of equal remaining quota in their order. The
  remaining quota is infinite when \<open>usedCount\<close> or \<open>limitCount\<close> is absent or zero, and
  \<open>max 0 (limitCount - usedCount)\<close> otherwise; so no account of unknown quota comes after
  one of known quota, and a \<open>usedCount\<close> of 0 counts as unknown.
\<close>

theorem sortAccountsByQuota_ranks:
  "mset (sortAccountsByQuota accs) = mset accs
   \<and> sorted_wrt ranksNoLater (sortAccountsByQuota accs)
   \<and> filter (\<lambda>b. getRemainingQuota b = getRemainingQuota a) (sortAccountsByQuota accs)
       = filter (\<lambda>b. getRemainingQuota b = getRemainingQuota a) accs
   \<and> getRemainingQuota a =
       (if falsy (usedCount a) \<or> falsy (limitCount a) then PosInfinity
        else Fin (max 0 (orZero (limitCount a) - orZero (usedCount a))))
   \<and> (\<forall>i j. i < j \<and> j < length accs
          \<and> getRemainingQuota (sortAccountsByQuota accs ! j) = PosInfinity
        \<longrightarrow> getRemainingQuota (sortAccountsByQuota accs ! i) = PosInfinity)"
proof -
  let ?cmp = "\<lambda>a b. minusNumber (getRemainingQuota b) (getRemainingQuota a)"
  have cmp: "(sortOrder (?cmp x y) \<le> 0) = ranksNoLater x y" for x y
    by (rule quota_comparator)
  have p: "mset (sortAccountsByQuota accs) = mset accs"
    by (simp add: sortAccountsByQuota_def mset_arraySort)
  have s: "sorted_wrt ranksNoLater (sortAccountsByQuota accs)"
    unfolding sortAccountsByQuota_def
    by (rule sorted_arraySort [where R = ranksNoLater, OF cmp ranksNoLater_trans ranksNoLater_total])
  have "filter (\<lambda>b. ranksNoLater b a \<and> ranksNoLater a b) (sortAccountsByQuota accs)
          = filter (\<lambda>b. ranksNoLater b a \<and> ranksNoLater a b) accs"
    unfolding sortAccountsByQuota_def
    by (rule stable_arraySort [where R = ranksNoLater, OF cmp ranksNoLater_trans ranksNoLater_total])
  then have st: "filter (\<lambda>b. getRemainingQuota b = getRemainingQuota a) (sortAccountsByQuota accs)
                   = filter (\<lambda>b. getRemainingQuota b = getRemainingQuota a) accs"
    by (simp only: ranksNoLater_both)
  have len: "length (sortAccountsByQuota accs) = length accs"
    using p by (metis size_mset)
  have u: "getRemainingQuota (sortAccountsByQuota accs ! i) = PosInfinity"
    if "i < j" "j < length accs" "getRemainingQuota (sortAccountsByQuota accs ! j) = PosInfinity"
    for i j
  proof -
    from s that(1,2) len
    have "ranksNoLater (sortAccountsByQuota accs ! i) (sortAccountsByQuota accs ! j)"
      by (simp add: sorted_wrt_iff_nth_less)
    with that(3) getRemainingQuota_range [of "sortAccountsByQuota accs ! i"]
    show ?thesis by (auto simp: ranksNoLater_def)
  qed
  from p s st getRemainingQuota_cases [of a] u show ?thesis by blast
qed

text \<open>
  The theorem at a list of four accounts: 10 used of 1000, 0 used of 50, no counters, 50
  used of 100. The two accounts of unknown quota come first, in their order.
\<close>

theorem sortAccountsByQuota_ranks_witness:
  "sortAccountsByQuota
     [sampleAccount ''busy'' (Some 10) (Some 1000), sampleAccount ''fresh'' (Some 0) (Some 50),
      sampleAccount ''unknown'' None None, sampleAccount ''half'' (Some 50) (Some 100)]
   = [sampleAccount ''fresh'' (Some 0) (Some 50), sampleAccount ''unknown'' None None,
      sampleAccount ''busy'' (Some 10) (Some 1000), sampleAccount ''half'' (Some 50) (Some 100)]
   \<and> sorted_wrt ranksNoLater
       (sortAccountsByQuota
          [sampleAccount ''busy'' (Some 10) (Some 1000), sampleAccount ''fresh'' (Some 0) (Some 50),
           sampleAccount ''unknown'' None None, sampleAccount ''half'' (Some 50) (Some 100)])"
proof -
  have "sortAccountsByQuota
     [sampleAccount ''busy'' (Some 10) (Some 1000), sampleAccount ''fresh'' (Some 0) (Some 50),
      sampleAccount ''unknown'' None None, sampleAccount ''half'' (Some 50) (Some 100)]
   = [sampleAccount ''fresh'' (Some 0) (Some 50), sampleAccount ''unknown'' None None,
      sampleAccount ''busy'' (Some 10) (Some 1000), sampleAccount ''half'' (Some 50) (Some 100)]"
    by (simp add: sortAccountsByQuota_def arraySort_def getRemainingQuota_def falsy_def
          getRemainingCount_def sampleAccount_def)
  with sortAccountsByQuota_ranks
         [of "[sampleAccount ''busy'' (Some 10) (Some 1000), sampleAccount ''fresh'' (Some 0) (Some 50),
               sampleAccount ''unknown'' None None, sampleAccount ''half'' (Some 50) (Some 100)]"]
  show ?thesis by blast
qed

text \<open>
  C8 as stated fails: an account with \<open>usedCount = 0\<close> and \<open>limitCount = 50\<close> has a known
  quota with 50 remaining, less than the 990 of an account with 10 used of 1000, yet it is
  given an infinite remaining quota and ranked first.
\<close>

theorem unused_account_ranks_as_unknown:
  "sortAccountsByQuota
     [sampleAccount ''busy'' (Some 10) (Some 1000), sampleAccount ''fresh'' (Some 0) (Some 50)]
   = [sampleAccount ''fresh'' (Some 0) (Some 50), sampleAccount ''busy'' (Some 10) (Some 1000)]
   \<and> getRemainingQuota (sampleAccount ''fresh'' (Some 0) (Some 50)) = PosInfinity
   \<and> getRemainingQuota (sampleAccount ''busy'' (Some 10) (Some 1000)) = Fin 990
   \<and> getRemainingCount 0 50 = 50
   \<and> limitCount (sampleAccount ''fresh'' (Some 0) (Some 50)) = Some 50"
  by (simp add: sortAccountsByQuota_def arraySort_def getRemainingQuota_def falsy_def
        getRemainingCount_def sampleAccount_def)

section \<open>Selection ignores the quota\<close>


section \<open>Round-robin\<close>

lemma getCurrentOrNext_round_robin:
  assumes "strategy m = RoundRobin" and "snd (availableAccounts now (accounts m)) = A" and "A \<noteq> []"
  shows "fst (getCurrentOrNext now now2 m) = Some (A ! (cursor m mod length A))"
    and "cursor (snd (getCurrentOrNext now now2 m)) = (cursor m + 1) mod length A"
    and "strategy (snd (getCurrentOrNext now now2 m)) = RoundRobin"
  using assms
  by (cases "availableAccounts now (accounts m)"; simp add: getCurrentOrNext_def Let_def)+

text \<open>Any number of calls: call \<open>k\<close> answers the entry \<open>(cursor + k) mod N\<close> of the available list.\<close>

lemma consecutiveCalls_round_robin:
  assumes "strategy m = RoundRobin" and "A \<noteq> []" and "availableThroughout A ts m"
  shows "fst (consecutiveCalls ts m) =
           map (\<lambda>k. Some (A ! ((cursor m + k) mod length A))) [0..<length ts]
         \<and> (ts \<noteq> [] \<longrightarrow>
              cursor (snd (consecutiveCalls ts m)) = (cursor m + length ts) mod length A)"
  using assms
proof (induction ts arbitrary: m)
  case Nil
  then show ?case by simp
next
  case (Cons t ts)
  obtain now now2 where t: "t = (now, now2)" by (cases t)
  let ?m' = "snd (getCurrentOrNext now now2 m)"
  from Cons.prems t have av: "snd (availableAccounts now (accounts m)) = A"
    and th: "availableThroughout A ts ?m'" by simp_all
  note step = getCurrentOrNext_round_robin [OF Cons.prems(1) av Cons.prems(2), of now2]
  from Cons.IH [OF step(3) Cons.prems(2) th]
  have ih: "fst (consecutiveCalls ts ?m') =
              map (\<lambda>k. Some (A ! ((cursor ?m' + k) mod length A))) [0..<length ts]"
    and ihc: "ts \<noteq> [] \<longrightarrow>
                cursor (snd (consecutiveCalls ts ?m')) = (cursor ?m' + length ts) mod length A"
    by simp_all
  have shift: "(cursor ?m' + k) mod length A = (cursor m + Suc k) mod length A" for k
    by (simp add: step(2) mod_add_left_eq)
  have upt: "[0..<Suc (length ts)] = 0 # map Suc [0..<length ts]"
    by (simp add: upt_conv_Cons map_Suc_upt del: upt_Suc)
  have res: "fst (consecutiveCalls (t # ts) m) =
               fst (getCurrentOrNext now now2 m) # fst (consecutiveCalls ts ?m')"
    by (simp add: t split: prod.splits)
  have fin: "snd (consecutiveCalls (t # ts) m) = snd (consecutiveCalls ts ?m')"
    by (simp add: t split: prod.splits)
  have "fst (consecutiveCalls (t # ts) m) =
          map (\<lambda>k. Some (A ! ((cursor m + k) mod length A))) [0..<length (t # ts)]"
    unfolding res ih step(1) by (simp add: upt shift comp_def del: upt_Suc)
  moreover
  have "cursor (snd (consecutiveCalls (t # ts) m)) = (cursor m + length (t # ts)) mod length A"
  proof (cases "ts = []")
    case True
    with fin step(2) show ?thesis by simp
  next
    case False
    with ihc fin show ?thesis by (simp add: shift)
  qed
  ultimately show ?case by simp
qed

lemma rotate_nth_map:
  assumes "A \<noteq> []"
  shows "map (\<lambda>k. A ! ((c + k) mod length A)) [0..<length A] = rotate c A"
  using assms by (intro nth_equalityI) (simp_all add: nth_rotate)

lemma mset_rotate_eq: "mset (rotate n xs) = mset xs"
proof -
  have "mset (drop k xs @ take k xs) = mset (take k xs @ drop k xs)" for k
    by (simp only: mset_append add.commute)
  then show ?thesis
    by (simp only: rotate_drop_take append_take_drop_id)
qed

text \<open>
  C5. Round-robin strategy, any cursor, \<open>N \<ge> 1\<close> positions \<open>A\<close> kept by the filter of each of
  \<open>N\<close> consecutive calls: call \<open>k\<close> returns \<open>A ! ((cursor + k) mod N)\<close>, so the answers are the
  available accounts, each exactly once; each call moves the cursor to
  \<open>(cursor + 1) mod N\<close>, which after the \<open>N\<close> calls is \<open>cursor mod N\<close>.
\<close>

theorem round_robin_visits_each_once:
  assumes "strategy m = RoundRobin" and "A \<noteq> []" and "length ts = length A"
    and "availableThroughout A ts m"
  shows "fst (consecutiveCalls ts m) =
           map (\<lambda>k. Some (A ! ((cursor m + k) mod length A))) [0..<length A]
         \<and> mset (fst (consecutiveCalls ts m)) = mset (map Some A)
         \<and> distinct (fst (consecutiveCalls ts m))
         \<and> cursor (snd (getCurrentOrNext (fst (hd ts)) (snd (hd ts)) m)) = (cursor m + 1) mod length A
         \<and> cursor (snd (consecutiveCalls ts m)) = cursor m mod length A"
proof -
  from assms(2,3) have ne: "ts \<noteq> []" by auto
  from consecutiveCalls_round_robin [OF assms(1,2,4)] ne assms(3)
  have r: "fst (consecutiveCalls ts m) =
             map (\<lambda>k. Some (A ! ((cursor m + k) mod length A))) [0..<length A]"
    and c: "cursor (snd (consecutiveCalls ts m)) = (cursor m + length A) mod length A"
    by simp_all
  have "map (\<lambda>k. Some (A ! ((cursor m + k) mod length A))) [0..<length A]
          = map Some (map (\<lambda>k. A ! ((cursor m + k) mod length A)) [0..<length A])"
    by simp
  also have "\<dots> = map Some (rotate (cursor m) A)"
    by (simp only: rotate_nth_map [OF assms(2)])
  finally have rot: "fst (consecutiveCalls ts m) = map Some (rotate (cursor m) A)"
    using r by simp
  obtain now now2 ts' where ts: "ts = (now, now2) # ts'"
    using ne by (cases ts) auto
  with assms(4) have av: "snd (availableAccounts now (accounts m)) = A" by simp
  then have d: "distinct A" by (auto simp: availableAccounts_def)
  from getCurrentOrNext_round_robin(2) [OF assms(1) av assms(2), of now2] ts
  have one: "cursor (snd (getCurrentOrNext (fst (hd ts)) (snd (hd ts)) m)) = (cursor m + 1) mod length A"
    by simp
  from rot d have "distinct (fst (consecutiveCalls ts m))"
    by (simp add: distinct_map)
  moreover from rot have "mset (fst (consecutiveCalls ts m)) = mset (map Some A)"
    by (simp add: mset_rotate_eq)
  ultimately show ?thesis using r c one by simp
qed

text \<open>
  The theorem at \<open>roundRobinPool\<close>: positions 0 and 2 are available, the cursor is 1; two
  calls return position 2 and then position 0.
\<close>

theorem round_robin_visits_each_once_witness:
  "strategy roundRobinPool = RoundRobin
   \<and> availableThroughout [0, 2] [(10, 10), (20, 20)] roundRobinPool
   \<and> fst (consecutiveCalls [(10, 10), (20, 20)] roundRobinPool) = [Some 2, Some 0]
   \<and> cursor (snd (consecutiveCalls [(10, 10), (20, 20)] roundRobinPool)) = 1"
proof -
  have s: "strategy roundRobinPool = RoundRobin" by (simp add: roundRobinPool_def)
  have a: "availableThroughout [0, 2] [(10, 10), (20, 20)] roundRobinPool"
    by (simp add: roundRobinPool_def sampleAccount_def getCurrentOrNext_def availableAccounts_def
          availabilityFilter_def stampSelected_def orZero_def)
  have c: "cursor roundRobinPool = 1" by (simp add: roundRobinPool_def)
  from round_robin_visits_each_once [OF s _ _ a] s a c show ?thesis by simp
qed

section \<open>Lowest usage\<close>

text \<open>
  C6. Lowest-usage strategy, pool \<open>A\<close> (5 requests), \<open>B\<close> (1), \<open>C\<close> (3), all available and
  never used, calls at the times \<open>t1\<close>, \<open>t2\<close>, \<open>t3\<close> with \<open>t2\<close> after the epoch: the first call
  returns \<open>B\<close> (position 1) and leaves it with 2 requests and \<open>lastUsed = t1\<close>; the second
  returns \<open>B\<close> again, now with 3 requests and \<open>lastUsed = t2\<close>; the third returns \<open>C\<close>
  (position 2), which ties with \<open>B\<close> at 3 requests and has no \<open>lastUsed\<close>.
\<close>

theorem lowest_usage_scenario:
  assumes "0 < t2"
  shows
  "(let m0 = m\<lparr>accounts := [availableWithUsage a 5, availableWithUsage b 1, availableWithUsage c 3],
               strategy := LowestUsage\<rparr>;
        (r1, m1) = getCurrentOrNext t1 n1 m0;
        (r2, m2) = getCurrentOrNext t2 n2 m1;
        (r3, m3) = getCurrentOrNext t3 n3 m2
    in r1 = Some 1 \<and> usedCount (accounts m1 ! 1) = Some 2 \<and> lastUsed (accounts m1 ! 1) = Some t1
     \<and> r2 = Some 1 \<and> usedCount (accounts m2 ! 1) = Some 3 \<and> lastUsed (accounts m2 ! 1) = Some t2
     \<and> usedCount (accounts m2 ! 2) = Some 3 \<and> lastUsed (accounts m2 ! 2) = None
     \<and> usedCount (accounts m2 ! 0) = Some 5
     \<and> r3 = Some 2)"
  using assms
  by (simp add: getCurrentOrNext_def availableAccounts_def availabilityFilter_def arraySort_def
        compareUsage_def orZero_def stampSelected_def availableWithUsage_def Let_def)

text \<open>The scenario with calls at the times 1000, 2000 and 3000.\<close>

theorem lowest_usage_scenario_witness:
  "(0::int) < 2000 \<and>
   (let m0 = roundRobinPool\<lparr>accounts := [availableWithUsage (sampleAccount ''A'' None None) 5,
                                           availableWithUsage (sampleAccount ''B'' None None) 1,
                                           availableWithUsage (sampleAccount ''C'' None None) 3],
                             strategy := LowestUsage\<rparr>;
        (r1, m1) = getCurrentOrNext 1000 1000 m0;
        (r2, m2) = getCurrentOrNext 2000 2000 m1;
        (r3, m3) = getCurrentOrNext 3000 3000 m2
    in r1 = Some 1 \<and> usedCount (accounts m1 ! 1) = Some 2 \<and> lastUsed (accounts m1 ! 1) = Some 1000
     \<and> r2 = Some 1 \<and> usedCount (accounts m2 ! 1) = Some 3 \<and> lastUsed (accounts m2 ! 1) = Some 2000
     \<and> usedCount (accounts m2 ! 2) = Some 3 \<and> lastUsed (accounts m2 ! 2) = None
     \<and> usedCount (accounts m2 ! 0) = Some 5
     \<and> r3 = Some 2)"
proof -
  have h: "(0::int) < 2000" by simp
  from lowest_usage_scenario [OF h, where m = roundRobinPool
      and a = "sampleAccount ''A'' None None" and b = "sampleAccount ''B'' None None"
      and c = "sampleAccount ''C'' None None" and ?t1.0 = 1000 and ?n1.0 = 1000 and ?n2.0 = 2000
      and ?t3.0 = 3000 and ?n3.0 = 3000] h
  show ?thesis by (intro conjI)
qed

section \<open>Locked writes\<close>

lemma ensureFileExists_ok:
  assumes "fileExists kind w \<or> (Mkdir \<notin> faults \<and> WriteFile \<notin> faults)"
  shows "fst (ensureFileExists faults kind w) = Inr ()"
    and "fileExists kind (snd (ensureFileExists faults kind w))"
    and "events (snd (ensureFileExists faults kind w)) = events w @ [EnsureFileExists kind]"
    and "held (snd (ensureFileExists faults kind w)) = held w"
  using assms
  by (auto simp: ensureFileExists_def Let_def record_event_def fileExists_def
           split: FileKind.splits)

text \<open>
  C9 (as amended). When the file is there or can be created, and the lock can be taken,
  \<open>withFileLock\<close> performs its steps in the order: ensure that the file exists, acquire the
  lock, run \<open>fn\<close> (in a world \<open>w2\<close> where the file exists and the lock is held). Whatever
  \<open>fn\<close> answers, a result or an exception, is the answer of \<open>withFileLock\<close>; an exception
  is logged; then the lock is released, and when the release fails this is logged as a
  warning and the answer of \<open>fn\<close> stands.
\<close>

theorem withFileLock_protocol:
  assumes "fileExists kind w \<or> (Mkdir \<notin> faults \<and> WriteFile \<notin> faults)"
    and "Lock \<notin> faults" and "kind \<notin> held w"
  shows "\<exists>w2. events w2 = events w @ [EnsureFileExists kind, LockAcquired kind, CallbackRun kind]
          \<and> fileExists kind w2 \<and> held w2 = insert kind (held w)
          \<and> (case fn w2 of
                (r, w3) \<Rightarrow>
                  fst (withFileLock faults kind fn w) = r
                  \<and> events (snd (withFileLock faults kind fn w)) =
                      events w3 @ (case r of Inl e \<Rightarrow> [LogError e] | Inr _ \<Rightarrow> [])
                        @ [if Unlock \<in> faults then LogWarn UnlockFailed else LockReleased kind]
                  \<and> held (snd (withFileLock faults kind fn w)) =
                      (if Unlock \<in> faults then held w3 else held w3 - {kind}))"
proof -
  obtain w1 where e: "ensureFileExists faults kind w = (Inr (), w1)"
    using ensureFileExists_ok(1) [OF assms(1)] by (cases "ensureFileExists faults kind w") auto
  with ensureFileExists_ok(2-4) [OF assms(1)]
  have w1: "fileExists kind w1" "events w1 = events w @ [EnsureFileExists kind]" "held w1 = held w"
    by simp_all
  let ?w2 = "record_event (CallbackRun kind)
               (record_event (LockAcquired kind) (w1\<lparr>held := insert kind (held w1)\<rparr>))"
  obtain r w3 where f: "fn ?w2 = (r, w3)" by (cases "fn ?w2")
  have a: "events ?w2 = events w @ [EnsureFileExists kind, LockAcquired kind, CallbackRun kind]"
    using w1 by (simp add: record_event_def)
  have b: "fileExists kind ?w2"
    using w1 by (cases kind) (simp_all add: record_event_def fileExists_def)
  have c: "held ?w2 = insert kind (held w)" using w1 by (simp add: record_event_def)
  let ?w4 = "case r of Inl e \<Rightarrow> record_event (LogError e) w3 | Inr _ \<Rightarrow> w3"
  have wl: "withFileLock faults kind fn w =
              (r, if Unlock \<in> faults then record_event (LogWarn UnlockFailed) ?w4
                  else record_event (LockReleased kind) (?w4\<lparr>held := held ?w4 - {kind}\<rparr>))"
  proof -
    have "kind \<notin> held w1" using w1(3) assms(3) by simp
    with assms(2) show ?thesis by (simp add: withFileLock_def e f Let_def)
  qed
  have d: "case fn ?w2 of
                (r, w3) \<Rightarrow>
                  fst (withFileLock faults kind fn w) = r
                  \<and> events (snd (withFileLock faults kind fn w)) =
                      events w3 @ (case r of Inl e \<Rightarrow> [LogError e] | Inr _ \<Rightarrow> [])
                        @ [if Unlock \<in> faults then LogWarn UnlockFailed else LockReleased kind]
                  \<and> held (snd (withFileLock faults kind fn w)) =
                      (if Unlock \<in> faults then held w3 else held w3 - {kind})"
    unfolding f wl by (cases r) (simp_all add: record_event_def)
  show ?thesis by (rule exI [of _ ?w2]) (intro conjI a b c d)
qed

text \<open>
  The theorem where the files are missing, the callback throws and the release fails: the
  exception of the callback is the answer, both failures are logged, the lock stays held.
\<close>

theorem withFileLock_protocol_witness:
  "fst (withFileLock {Unlock} AccountsFile (\<lambda>w. (Inl WriteFailed :: Error + unit, w)) emptyWorld)
     = Inl WriteFailed
   \<and> events (snd (withFileLock {Unlock} AccountsFile
                    (\<lambda>w. (Inl WriteFailed :: Error + unit, w)) emptyWorld)) =
       [EnsureFileExists AccountsFile, LockAcquired AccountsFile, CallbackRun AccountsFile,
        LogError WriteFailed, LogWarn UnlockFailed]
   \<and> held (snd (withFileLock {Unlock} AccountsFile
                  (\<lambda>w. (Inl WriteFailed :: Error + unit, w)) emptyWorld)) = {AccountsFile}"
proof -
  have h: "fileExists AccountsFile emptyWorld \<or> (Mkdir \<notin> {Unlock} \<and> WriteFile \<notin> {Unlock})"
    "Lock \<notin> {Unlock}" "AccountsFile \<notin> held emptyWorld"
    by (simp_all add: emptyWorld_def)
  from withFileLock_protocol [OF h, where fn = "\<lambda>w. (Inl WriteFailed :: Error + unit, w)"]
  show ?thesis by (auto simp: emptyWorld_def)
qed

text \<open>
  C9 as stated fails in the order of the first two steps: the file is ensured before the
  lock is acquired. With both files missing the steps come in the order below, and when
  the lock cannot be taken the default document has been written all the same.
\<close>

theorem file_is_ensured_before_lock:
  "events (snd (withFileLock {} AccountsFile (\<lambda>w. (Inr () :: Error + unit, w)) emptyWorld)) =
     [EnsureFileExists AccountsFile, LockAcquired AccountsFile, CallbackRun AccountsFile,
      LockReleased AccountsFile]
   \<and> EnsureFileExists AccountsFile \<in> set (takeWhile (\<lambda>e. e \<noteq> LockAcquired AccountsFile)
        (events (snd (withFileLock {} AccountsFile (\<lambda>w. (Inr () :: Error + unit, w)) emptyWorld))))
   \<and> fst (withFileLock {Lock} AccountsFile (\<lambda>w. (Inr () :: Error + unit, w)) emptyWorld)
       = Inl LockFailed
   \<and> accountsFile (snd (withFileLock {Lock} AccountsFile
                          (\<lambda>w. (Inr () :: Error + unit, w)) emptyWorld)) = Doc defaultStorage
   \<and> accountsFile emptyWorld = Missing"
  by (simp add: withFileLock_def ensureFileExists_def record_event_def fileExists_def
        emptyWorld_def Let_def)

section \<open>Saving and loading\<close>

lemma saveAccounts_ok:
  assumes "saveAccounts faults storage w = (Inr (), w1)"
  shows "accountsFile w1 = Doc storage"
  using assms
  by (auto simp: saveAccounts_def withFileLock_def ensureFileExists_def Let_def record_event_def
        split: if_splits prod.splits sum.splits FileKind.splits)

lemma saveUsage_ok:
  assumes "saveUsage faults storage w = (Inr (), w1)"
  shows "usageFile w1 = Doc storage" and "accountsFile w1 = accountsFile w"
  using assms
  by (auto simp: saveUsage_def withFileLock_def ensureFileExists_def Let_def record_event_def
        split: if_splits prod.splits sum.splits FileKind.splits)

text \<open>After a save that did not throw, the two files hold the two documents of the pool.\<close>

lemma saveToDisk_ok:
  assumes "saveToDisk fa fu m w = (Inr (), w1)"
  shows "accountsFile w1 =
           Doc \<lparr>AccountStorage.version = 1, AccountStorage.accounts = map toMetadata (accounts m),
                activeIndex = int (cursor m)\<rparr>"
    and "usageFile w1 = Doc \<lparr>UsageStorage.version = 1, UsageStorage.usage = usage m\<rparr>"
proof -
  let ?st = "\<lparr>AccountStorage.version = 1, AccountStorage.accounts = map toMetadata (accounts m),
                activeIndex = int (cursor m)\<rparr>"
  obtain r w0 where a: "saveAccounts fa ?st w = (r, w0)" by (cases "saveAccounts fa ?st w")
  with assms have r: "r = Inr ()" by (cases r) (simp_all add: saveToDisk_def)
  with a assms
  have u: "saveUsage fu \<lparr>UsageStorage.version = 1, UsageStorage.usage = usage m\<rparr> w0 = (Inr (), w1)"
    by (simp add: saveToDisk_def)
  from saveAccounts_ok a r have "accountsFile w0 = Doc ?st" by blast
  with saveUsage_ok [OF u] show "accountsFile w1 = Doc ?st"
    and "usageFile w1 = Doc \<lparr>UsageStorage.version = 1, UsageStorage.usage = usage m\<rparr>"
    by simp_all
qed







section \<open>Usage records and their accounts\<close>

lemma findIndex_Some:
  "findIndex P xs = Some i \<Longrightarrow> i < length xs \<and> P (xs ! i)"
proof (induction xs arbitrary: i)
  case Nil
  then show ?case by simp
next
  case (Cons x xs)
  then show ?case by (cases "P x") (auto split: if_splits)
qed

lemma map_update_same:
  assumes "i < length xs \<Longrightarrow> f y = f (xs ! i)"
  shows "map f (xs[i := y]) = map f xs"
proof (cases "i < length xs")
  case True
  with assms show ?thesis by (simp add: map_update list_update_same_conv)
next
  case False
  then have "xs[i := y] = xs" by (simp add: list_update_beyond)
  then show ?thesis by simp
qed

lemma id_availabilityFilter [simp]: "id' (snd (availabilityFilter now a)) = id' a"
  by (simp add: availabilityFilter_def split: option.splits)

lemma id_stampSelected [simp]: "id' (stampSelected now a) = id' a"
  by (simp add: stampSelected_def)

lemma availableAccounts_ids: "map id' (fst (availableAccounts now accs)) = map id' accs"
  by (simp add: availableAccounts_def)

text \<open>No operation but \<open>addAccount\<close> and \<open>removeAccount\<close> changes the ids of the pool.\<close>

lemma getCurrentOrNext_usage: "usage (snd (getCurrentOrNext now now2 m)) = usage m"
  by (cases "availableAccounts now (accounts m)")
     (auto simp: getCurrentOrNext_def Let_def
           split: if_splits AccountSelectionStrategy.splits list.splits)

lemma getCurrentOrNext_ids:
  "map id' (accounts (snd (getCurrentOrNext now now2 m))) = map id' (accounts m)"
proof -
  obtain r m' where e: "getCurrentOrNext now now2 m = (r, m')"
    by (cases "getCurrentOrNext now now2 m")
  let ?accs = "fst (availableAccounts now (accounts m))"
  have "map id' (?accs[j := stampSelected now (?accs ! j)]) = map id' ?accs" for j
    by (rule map_update_same) simp
  with getCurrentOrNext_accounts [OF e]
  have "map id' (accounts m') = map id' ?accs"
    by auto
  with e show ?thesis by (simp add: availableAccounts_ids)
qed

lemma accountIds_map: "accountIds m = set (map id' (accounts m))"
  by (simp add: accountIds_def)

lemma accountIds_getCurrentOrNext: "accountIds (snd (getCurrentOrNext now now2 m)) = accountIds m"
  by (simp only: accountIds_map getCurrentOrNext_ids)

lemma accountIds_updateUsage: "accountIds (updateUsage now i u l e m) = accountIds m"
proof -
  have "map id' (accounts (updateUsage now i u l e m)) = map id' (accounts m)"
    by (auto simp: updateUsage_def Let_def split: option.splits intro!: map_update_same)
  then show ?thesis by (simp only: accountIds_map)
qed

lemma dom_usage_updateUsage: "dom (usage (updateUsage now i u l e m)) = insert i (dom (usage m))"
  by (simp add: updateUsage_def)

lemma accountIds_addAccount: "accountIds (addAccount a m) = insert (id' a) (accountIds m)"
proof (cases "findIndex (\<lambda>b. id' b = id' a) (accounts m)")
  case None
  then show ?thesis by (simp add: addAccount_def accountIds_def)
next
  case (Some i)
  from findIndex_Some [OF Some] have i: "i < length (accounts m)" "id' (accounts m ! i) = id' a"
    by simp_all
  then have "map id' ((accounts m)[i := a]) = map id' (accounts m)"
    by (intro map_update_same) simp
  moreover from i have "id' a \<in> set (map id' (accounts m))"
    by (metis length_map nth_map nth_mem)
  ultimately show ?thesis using Some by (auto simp: addAccount_def accountIds_map)
qed

lemma usage_addAccount: "usage (addAccount a m) = usage m"
  by (simp add: addAccount_def split: option.splits)

lemma accountIds_removeAccount: "accountIds (removeAccount a m) = accountIds m - {id' a}"
  by (auto simp: removeAccount_def accountIds_def Let_def)

lemma usage_removeAccount: "usage (removeAccount a m) = (usage m)(id' a := None)"
  by (simp add: removeAccount_def Let_def)

lemma accountIds_updateFromAuth: "accountIds (updateFromAuth dec now a auth m) = accountIds m"
proof -
  have "map id' (accounts (updateFromAuth dec now a auth m)) = map id' (accounts m)"
    by (auto simp: updateFromAuth_def Let_def split: option.splits intro!: map_update_same)
  then show ?thesis by (simp only: accountIds_map)
qed

lemma usage_updateFromAuth: "usage (updateFromAuth dec now a auth m) = usage m"
  by (simp add: updateFromAuth_def Let_def split: option.splits)

lemma accountIds_markRateLimited: "accountIds (markRateLimited now a ms m) = accountIds m"
proof -
  have "map id' (accounts (markRateLimited now a ms m)) = map id' (accounts m)"
    by (auto simp: markRateLimited_def split: option.splits intro!: map_update_same)
  then show ?thesis by (simp only: accountIds_map)
qed

lemma usage_markRateLimited: "usage (markRateLimited now a ms m) = usage m"
  by (simp add: markRateLimited_def split: option.splits)

lemma accountIds_markUnhealthy: "accountIds (markUnhealthy a reason rec m) = accountIds m"
proof -
  have "map id' (accounts (markUnhealthy a reason rec m)) = map id' (accounts m)"
    by (auto simp: markUnhealthy_def split: option.splits intro!: map_update_same)
  then show ?thesis by (simp only: accountIds_map)
qed

lemma usage_markUnhealthy: "usage (markUnhealthy a reason rec m) = usage m"
  by (simp add: markUnhealthy_def split: option.splits)

lemma perform_usageOwned:
  assumes "usageOwned (fst s)" and "syncsKnownAccount op (fst s)"
  shows "usageOwned (fst (perform dec op s))"
proof (cases s)
  case (Pair m w)
  with assms have o: "dom (usage m) \<subseteq> accountIds m" by (simp add: usageOwned_def)
  show ?thesis
  proof (cases op)
    case (GetCurrentOrNext now now2)
    with Pair o show ?thesis
      by (simp add: usageOwned_def accountIds_getCurrentOrNext getCurrentOrNext_usage)
  next
    case (UpdateUsage now i u l e)
    with Pair assms(2) have "i \<in> accountIds m" by simp
    with UpdateUsage Pair o show ?thesis
      by (simp add: usageOwned_def accountIds_updateUsage dom_usage_updateUsage)
  next
    case (AddAccount a)
    with Pair o show ?thesis
      by (auto simp: usageOwned_def accountIds_addAccount usage_addAccount)
  next
    case (RemoveAccount a)
    with Pair o show ?thesis
      by (auto simp: usageOwned_def accountIds_removeAccount usage_removeAccount)
  next
    case (UpdateFromAuth now a auth)
    with Pair o show ?thesis
      by (simp add: usageOwned_def accountIds_updateFromAuth usage_updateFromAuth)
  next
    case (MarkRateLimited now a ms)
    with Pair o show ?thesis
      by (simp add: usageOwned_def accountIds_markRateLimited usage_markRateLimited)
  next
    case (MarkUnhealthy a reason rec)
    with Pair o show ?thesis
      by (simp add: usageOwned_def accountIds_markUnhealthy usage_markUnhealthy)
  next
    case (SaveToDisk fa fu)
    with Pair o show ?thesis by (simp add: usageOwned_def)
  qed
qed

lemma performAll_usageOwned:
  assumes "usageOwned (fst s)" and "syncKnownAccounts dec ops s"
  shows "usageOwned (fst (performAll dec ops s))"
  using assms
proof (induction ops arbitrary: s)
  case Nil
  then show ?case by simp
next
  case (Cons op ops)
  from Cons.prems have "usageOwned (fst (perform dec op s))"
    by (simp add: perform_usageOwned)
  with Cons show ?case by simp
qed

lemma saved_usageOwned:
  assumes "usageOwned m" and "saveToDisk fa fu m w = (Inr (), w1)"
  shows "noOrphanOnDisk w1"
proof -
  have "id' ` set (map toMetadata (accounts m)) = accountIds m"
    by (simp add: accountIds_def image_image toMetadata_def)
  with assms(1) saveToDisk_ok [OF assms(2)] show ?thesis
    by (simp add: noOrphanOnDisk_def usageOwned_def)
qed

text \<open>
  C4 (as amended). Start from a pool in which every key of the usage map is the id of an
  account of the pool, and run any sequence of \<open>getCurrentOrNext\<close>, \<open>updateUsage\<close>,
  \<open>addAccount\<close>, \<open>removeAccount\<close>, \<open>updateFromAuth\<close>, \<open>markRateLimited\<close>, \<open>markUnhealthy\<close> and
  \<open>saveToDisk\<close> in which every \<open>updateUsage\<close> names an account that is in the pool at that
  moment. Then every key of the usage map is still the id of an account of the pool, and
  a save that returns leaves no orphan usage record on disk. \<open>removeAccount\<close> always deletes
  the usage record of the id it removes.
\<close>

theorem usage_keys_stay_owned:
  assumes "usageOwned m" and "syncKnownAccounts dec ops (m, w)"
  shows "usageOwned (fst (performAll dec ops (m, w)))
         \<and> (\<forall>fa fu w' w1.
               saveToDisk fa fu (fst (performAll dec ops (m, w))) w' = (Inr (), w1)
               \<longrightarrow> noOrphanOnDisk w1)
         \<and> (\<forall>a p. usage (removeAccount a p) (id' a) = None
               \<and> id' a \<notin> accountIds (removeAccount a p)
               \<and> (\<forall>k. k \<noteq> id' a \<longrightarrow> usage (removeAccount a p) k = usage p k))"
proof -
  from performAll_usageOwned [of "(m, w)" dec ops] assms
  have o: "usageOwned (fst (performAll dec ops (m, w)))" by simp
  moreover from o have "\<forall>fa fu w' w1.
               saveToDisk fa fu (fst (performAll dec ops (m, w))) w' = (Inr (), w1)
               \<longrightarrow> noOrphanOnDisk w1"
    by (blast intro: saved_usageOwned)
  moreover have "\<forall>a p. usage (removeAccount a p) (id' a) = None
               \<and> id' a \<notin> accountIds (removeAccount a p)
               \<and> (\<forall>k. k \<noteq> id' a \<longrightarrow> usage (removeAccount a p) k = usage p k)"
    by (simp add: usage_removeAccount accountIds_removeAccount)
  ultimately show ?thesis by (intro conjI)
qed

text \<open>
  The theorem at the pool loaded from \<open>exhaustedWorld\<close>: an account \<open>b\<close> is added, synced,
  the pool is asked for an account, \<open>b\<close> is removed, the other account is marked unhealthy
  and the pool is saved. The usage record of \<open>b\<close> is gone, on disk as well.
\<close>

theorem usage_keys_stay_owned_witness:
  "usageOwned (fst (loadFromDisk ''us-east-1'' {} {} None exhaustedWorld))
   \<and> syncKnownAccounts plainDecode
       [AddAccount (sampleAccount ''b'' None None), UpdateUsage 5 ''b'' 1 10 None,
        GetCurrentOrNext 10 10, RemoveAccount (sampleAccount ''b'' None None),
        MarkUnhealthy (sampleAccount ''a1'' None None) ''quota'' None, SaveToDisk {} {}]
       (fst (loadFromDisk ''us-east-1'' {} {} None exhaustedWorld), exhaustedWorld)
   \<and> usageOwned (fst (performAll plainDecode
       [AddAccount (sampleAccount ''b'' None None), UpdateUsage 5 ''b'' 1 10 None,
        GetCurrentOrNext 10 10, RemoveAccount (sampleAccount ''b'' None None),
        MarkUnhealthy (sampleAccount ''a1'' None None) ''quota'' None, SaveToDisk {} {}]
       (fst (loadFromDisk ''us-east-1'' {} {} None exhaustedWorld), exhaustedWorld)))"
proof -
  let ?m = "fst (loadFromDisk ''us-east-1'' {} {} None exhaustedWorld)"
  have m: "?m = \<lparr>accounts = [sampleAccount ''a1'' (Some 100) (Some 100)],
                  usage = [''a1'' \<mapsto> \<lparr>UsageMetadata.usedCount = 100, UsageMetadata.limitCount = 100,
                                      UsageMetadata.realEmail = None, lastSync = 5\<rparr>],
                  cursor = 0, strategy = Sticky, lastToastAccountIndex = - 1, lastToastTime = 0\<rparr>"
    by (simp add: loadFromDisk_def loadAccounts_def loadUsage_def ensureFileExists_def
          record_event_def fileExists_def exhaustedWorld_def newAccountManager_def
          fromMetadata_def toMetadata_def sampleAccount_def syncUsage_def)
  have o: "usageOwned ?m"
    unfolding m by (simp add: usageOwned_def accountIds_def sampleAccount_def)
  have k: "syncKnownAccounts plainDecode
       [AddAccount (sampleAccount ''b'' None None), UpdateUsage 5 ''b'' 1 10 None,
        GetCurrentOrNext 10 10, RemoveAccount (sampleAccount ''b'' None None),
        MarkUnhealthy (sampleAccount ''a1'' None None) ''quota'' None, SaveToDisk {} {}]
       (?m, exhaustedWorld)"
    unfolding m by (simp add: accountIds_def addAccount_def sampleAccount_def)
  from usage_keys_stay_owned [OF o k] o k show ?thesis by (intro conjI) simp_all
qed

text \<open>
  C4 as stated fails. A pool loaded from an empty directory has no account; after
  \<open>updateUsage\<close> for the id \<open>ghost\<close> the usage map has that key and the pool still has no
  account. A pool loaded from \<open>orphanWorld\<close> starts with a usage record for an id that no
  account has.
\<close>

theorem usage_record_without_account:
  "\<not> usageOwned (updateUsage 5 ''ghost'' 1 10 None
                    (fst (loadFromDisk ''us-east-1'' {} {} None emptyWorld)))
   \<and> accounts (updateUsage 5 ''ghost'' 1 10 None
                 (fst (loadFromDisk ''us-east-1'' {} {} None emptyWorld))) = []
   \<and> usage (updateUsage 5 ''ghost'' 1 10 None
              (fst (loadFromDisk ''us-east-1'' {} {} None emptyWorld))) ''ghost'' \<noteq> None
   \<and> \<not> usageOwned (fst (loadFromDisk ''us-east-1'' {} {} None orphanWorld))
   \<and> accounts (fst (loadFromDisk ''us-east-1'' {} {} None orphanWorld)) = []"
  by (simp add: usageOwned_def accountIds_def updateUsage_def loadFromDisk_def loadAccounts_def
        loadUsage_def ensureFileExists_def record_event_def fileExists_def emptyWorld_def
        orphanWorld_def newAccountManager_def defaultStorage_def defaultUsage_def Let_def)

end
